theory Spec2Isabelle
  imports Main
begin

section \<open>Python values and exceptions\<close>

text \<open>
  The exceptions that the modelled code can raise.  The class raises none of its own:
  \<open>AssertionError\<close> comes from the \<open>assert\<close> of the constructor,
  \<open>AttributeError\<close> from reading an attribute that was never assigned
  (\<open>self.file\<close>, \<open>self.dataset\<close>), \<open>IndexError\<close> from \<open>shape[0]\<close> of a
  zero-dimensional array, and \<open>TypeError\<close>, \<open>ValueError\<close>, \<open>OSError\<close> from h5py.
  The specification's \<open>ConfigurationError\<close> is the \<open>AssertionError\<close>, its
  \<open>UninitializedContainerError\<close> the \<open>AttributeError\<close>, and its
  \<open>ShapeMismatchError\<close> the \<open>TypeError\<close> of h5py's write ("Can't broadcast").
\<close>

datatype pyexc = AssertionError | AttributeError | IndexError | TypeError | ValueError | OSError

text \<open>
  A method call on the store mutates the object and may then raise: the exception
  propagates, and the mutations made before it stay.  So a call returns the state it
  leaves behind in both cases.
\<close>

datatype 's outcome = Done 's | Raised pyexc 's

text \<open>The values of an \<open>info\<close> dictionary, and Python's \<open>str\<close> on them.\<close>

datatype pyval = PyStr string | PyInt int | PyBool bool | PyNone

definition digits :: string where
  "digits = ''0123456789''"

fun str_nat :: "nat \<Rightarrow> string" where
  "str_nat n =
     (if n < 10 then [digits ! n] else str_nat (n div 10) @ [digits ! (n mod 10)])"

declare str_nat.simps [simp del]

fun py_str :: "pyval \<Rightarrow> string" where
  "py_str (PyStr s) = s"
| "py_str (PyInt i) = (if i < 0 then CHR ''-'' # str_nat (nat (- i)) else str_nat (nat i))"
| "py_str (PyBool b) = (if b then ''True'' else ''False'')"
| "py_str PyNone = ''None''"

text \<open>Python's \<open>sub in s\<close> on strings: \<open>sub\<close> occurs in \<open>s\<close> as a contiguous run.\<close>

fun startswith :: "string \<Rightarrow> string \<Rightarrow> bool" where
  "startswith s [] = True"
| "startswith [] (p # ps) = False"
| "startswith (c # cs) (p # ps) = (c = p \<and> startswith cs ps)"

fun contains :: "string \<Rightarrow> string \<Rightarrow> bool" where
  "contains [] sub = (sub = [])"
| "contains (c # cs) sub = (startswith (c # cs) sub \<or> contains cs sub)"

definition endswith :: "string \<Rightarrow> string \<Rightarrow> bool" where
  "endswith s suf = startswith (rev s) (rev suf)"


section \<open>NumPy arrays and h5py datasets\<close>

text \<open>
  An array is its shape and its elements in C (row-major) order.
\<close>

record 'a array =
  shape :: "nat list"
  elems :: "'a list"

definition wf_array :: "('a, 'm) array_scheme \<Rightarrow> bool" where
  "wf_array a = (length (elems a) = prod_list (shape a))"

text \<open>
  A NumPy array lives in memory: \<open>beyond\<close> is what the memory holds after the last
  element of its buffer.  The program never looks there; a read that h5py makes past
  the end of a buffer does.
\<close>

record 'a ndarray = "'a array" +
  beyond :: "nat \<Rightarrow> 'a"

text \<open>What a read of \<open>k\<close> elements at the start of the buffer returns.\<close>

definition buffer :: "'a ndarray \<Rightarrow> nat \<Rightarrow> 'a list" where
  "buffer a k = take k (elems a) @ map (beyond a) [0..<k - length (elems a)]"

text \<open>The \<open>i\<close>-th run of \<open>k\<close> elements of a buffer.\<close>

definition block :: "nat \<Rightarrow> nat \<Rightarrow> 'a list \<Rightarrow> 'a list" where
  "block k i xs = take k (drop (i * k) xs)"

text \<open>
  The sample count \<open>a.shape[0]\<close>, the per-sample shape \<open>a.shape[1:]\<close> and the row
  \<open>a[i]\<close> (flattened) of an array whose first axis is the sample index.
\<close>

definition n_samples :: "('a, 'm) array_scheme \<Rightarrow> nat" where
  "n_samples a = (case shape a of [] \<Rightarrow> 0 | n # s \<Rightarrow> n)"

definition sample_shape :: "('a, 'm) array_scheme \<Rightarrow> nat list" where
  "sample_shape a = tl (shape a)"

definition row :: "('a, 'm) array_scheme \<Rightarrow> nat \<Rightarrow> 'a list" where
  "row a i = block (prod_list (sample_shape a)) i (elems a)"

text \<open>
  A dataset is an array stored in the file, with its element type, the maximal extent
  of each axis (\<open>None\<close>: unlimited) and its attributes.  The element type is given by
  the conversion of a value to it (what \<open>np.float32\<close> or \<open>np.int\<close> make of a number):
  every element written to the dataset goes through it.  Elements that were never
  written read as the fill value, which is \<open>0\<close> by default.
\<close>

record 'a dataset = "'a array" +
  dtype :: "'a \<Rightarrow> 'a"
  maxshape :: "nat option list"
  attrs :: "string \<rightharpoonup> string"

record h5file =
  path :: string
  members :: "string list"

text \<open>
  The compression filters that h5py can always encode.  Any other value of
  \<open>compression\<close> makes \<open>create_dataset\<close> raise \<open>ValueError\<close> (the filter \<open>szip\<close>
  exists in some builds of HDF5 only, and is taken as unavailable).
\<close>

definition available :: "string option \<Rightarrow> bool" where
  "available cmpr = (cmpr = None \<or> cmpr = Some ''gzip'' \<or> cmpr = Some ''lzf'')"

text \<open>
  \<open>File.create_dataset(name, shape, dtype, maxshape=maxshape, data=data, chunks=True,
  compression=compression)\<close>.
  h5py refuses data that does not fill the shape, chunking of a scalar dataset,
  a \<open>maxshape\<close> of another rank, a compression filter that is not available, and a
  name that the file already has.
\<close>

definition create_dataset ::
  "h5file \<Rightarrow> string \<Rightarrow> nat list \<Rightarrow> ('a \<Rightarrow> 'a) \<Rightarrow> nat option list \<Rightarrow> 'a ndarray
     \<Rightarrow> string option \<Rightarrow> pyexc + h5file \<times> 'a dataset" where
  "create_dataset f name shp dt maxshp data cmpr =
     (if prod_list shp \<noteq> prod_list (shape data) then Inl ValueError
      else if shp = [] then Inl TypeError
      else if length maxshp \<noteq> length shp then Inl ValueError
      else if \<not> available cmpr then Inl ValueError
      else if name \<in> set (members f) then Inl ValueError
      else Inr (f\<lparr>members := members f @ [name]\<rparr>,
                \<lparr>shape = shp, elems = map dt (buffer data (prod_list shp)),
                 dtype = dt, maxshape = maxshp, attrs = Map.empty\<rparr>))"

text \<open>
  The contents of a dataset after its extent changes from the first shape to the
  second: an element keeps its place (its multi-index), new places hold the fill value.
\<close>

fun resize_elems :: "nat list \<Rightarrow> nat list \<Rightarrow> 'a::zero list \<Rightarrow> 'a list" where
  "resize_elems (n # ns) (m # ms) xs =
     concat (map (\<lambda>i. if i < n then resize_elems ns ms (block (prod_list ns) i xs)
                      else replicate (prod_list ms) 0) [0..<m])"
| "resize_elems ns ms xs = xs"

text \<open>
  \<open>Dataset.resize(size)\<close>: the rank cannot change, and no axis can exceed its
  \<open>maxshape\<close>.
\<close>

definition within_maxshape :: "nat list \<Rightarrow> nat option list \<Rightarrow> bool" where
  "within_maxshape sz maxshp =
     list_all2 (\<lambda>n m. case m of None \<Rightarrow> True | Some k \<Rightarrow> n \<le> k) sz maxshp"

definition resize :: "'a::zero dataset \<Rightarrow> nat list \<Rightarrow> pyexc + 'a dataset" where
  "resize d sz =
     (if length sz \<noteq> length (shape d) then Inl TypeError
      else if \<not> within_maxshape sz (maxshape d) then Inl ValueError
      else Inr (d\<lparr>shape := sz, elems := resize_elems (shape d) sz (elems d)\<rparr>))"

text \<open>
  h5py's \<open>SimpleSelection.expand_shape\<close>: the shape of the source array is matched
  against the extents of the selection from the last axis backwards.  A source extent
  must be \<open>1\<close> or the selection's extent; selection axes that the source lacks get
  extent \<open>1\<close>; of the source axes that the selection lacks h5py refuses those of an
  extent above \<open>1\<close> (\<open>any(n > 1 for n in remaining_src_dims)\<close>), so that a surplus axis
  of extent \<open>0\<close> passes.  Both lists are given reversed.
\<close>

fun expand_rev :: "nat list \<Rightarrow> nat list \<Rightarrow> nat list option" where
  "expand_rev [] src = (if list_ex (\<lambda>n. 1 < n) src then None else Some [])"
| "expand_rev (c # cs) [] = map_option ((#) 1) (expand_rev cs [])"
| "expand_rev (c # cs) (t # ts) =
     (if t = 1 \<or> c = t then map_option ((#) t) (expand_rev cs ts) else None)"

definition expand_shape :: "nat list \<Rightarrow> nat list \<Rightarrow> nat list option" where
  "expand_shape cnt src = map_option rev (expand_rev (rev cnt) (rev src))"

text \<open>
  The elements written by a broadcasting write: the source buffer of (expanded) shape
  \<open>es\<close> repeated along every axis where its extent is \<open>1\<close> and the selection's is not.
\<close>

fun broadcast :: "nat list \<Rightarrow> nat list \<Rightarrow> 'a list \<Rightarrow> 'a list" where
  "broadcast (e # es) (c # cs) xs =
     (if e = c then concat (map (\<lambda>i. broadcast es cs (block (prod_list es) i xs)) [0..<c])
      else concat (replicate c (broadcast es cs xs)))"
| "broadcast es cs xs = xs"

text \<open>
  \<open>d[-c:, ...] = val\<close>, h5py's \<open>Dataset.__setitem__\<close> on a slice of the first axis.
  Python's slice \<open>-c:\<close> starts \<open>c\<close> rows before the end, and at row \<open>0\<close> when \<open>c\<close>
  is \<open>0\<close> (\<open>-0\<close> is \<open>0\<close>) or exceeds the number of rows.  A selection of no element
  returns at once.  Otherwise the source shape is expanded, or the write raises
  \<open>TypeError\<close>; HDF5 then reads as many elements as the expanded shape has at the
  source buffer, converts them to the element type of the dataset and writes them,
  broadcast, over the selected rows.  The expanded shape has more elements than the
  source only when the source has a surplus axis of extent \<open>0\<close>: then the read runs
  past the (empty) buffer.
\<close>

definition setitem_tail :: "'a dataset \<Rightarrow> nat \<Rightarrow> 'a ndarray \<Rightarrow> pyexc + 'a dataset" where
  "setitem_tail d c val =
     (case shape d of
        [] \<Rightarrow> Inl ValueError
      | n # s \<Rightarrow>
          (let start = (if c = 0 then 0 else n - c);
               sel = (n - start) # s
           in if prod_list sel = 0 then Inr d
              else (case expand_shape sel (shape val) of
                      None \<Rightarrow> Inl TypeError
                    | Some e \<Rightarrow>
                        Inr (d\<lparr>elems := take (start * prod_list s) (elems d)
                               @ broadcast e sel (map (dtype d) (buffer val (prod_list e)))\<rparr>))))"

text \<open>
  \<open>attrs[name] = val\<close> for a string value: h5py's \<open>AttributeManager.__setitem__\<close>.
  The name reaches HDF5 as a C string, which ends at its first NUL character; HDF5
  refuses an empty name, and h5py refuses a string value with a NUL character in it.
  In both cases the call raises \<open>ValueError\<close> and the attributes stay as they were.
\<close>

definition attrs_setitem ::
  "(string \<rightharpoonup> string) \<Rightarrow> string \<Rightarrow> string \<Rightarrow> pyexc + (string \<rightharpoonup> string)" where
  "attrs_setitem m name val =
     (let cname = takeWhile (\<lambda>c. c \<noteq> CHR 0x00) name
      in if cname = [] then Inl ValueError
         else if CHR 0x00 \<in> set val then Inl ValueError
         else Inr (m(cname \<mapsto> val)))"


section \<open>The class \<open>HDF5DatasetExtendable\<close>\<close>

text \<open>
  The fields \<open>data_type\<close> and \<open>label_type\<close> hold the element types of the two
  datasets, each as its conversion.  The attributes \<open>file\<close> (here \<open>file_handle\<close>),
  \<open>dataset\<close> and \<open>labelset\<close> do not exist before they are assigned (\<open>None\<close>).
\<close>

record ('a, 'b) store =
  filename :: string
  data_type :: "'a \<Rightarrow> 'a"
  label_type :: "'b \<Rightarrow> 'b"
  compression :: "string option"
  initialized :: bool
  file_handle :: "h5file option"
  dataset :: "'a dataset option"
  labelset :: "'b dataset option"

definition VERSION :: string where
  "VERSION = ''1.0.0''"

text \<open>\<open>__init__\<close>: the assertion, then the five assignments.\<close>

definition HDF5DatasetExtendable ::
  "string \<Rightarrow> ('a \<Rightarrow> 'a) \<Rightarrow> ('b \<Rightarrow> 'b) \<Rightarrow> string option \<Rightarrow> pyexc + ('a, 'b) store" where
  "HDF5DatasetExtendable fname dt lt cmpr =
     (if \<not> contains fname ''.hdf5'' then Inl AssertionError
      else Inr \<lparr>filename = fname, data_type = dt, label_type = lt, compression = cmpr,
                initialized = False, file_handle = None, dataset = None, labelset = None\<rparr>)"

text \<open>
  \<open>__enter__\<close>: \<open>h5py.File(self.filename, "w")\<close> creates an empty file; h5py refuses to
  truncate a file that is open.
\<close>

definition enter :: "('a, 'b) store \<Rightarrow> ('a, 'b) store outcome" where
  "enter st =
     (case file_handle st of
        Some f \<Rightarrow> Raised OSError st
      | None \<Rightarrow> Done (st\<lparr>file_handle := Some \<lparr>path = filename st, members = []\<rparr>\<rparr>))"

text \<open>
  The loop of \<open>add_metadata\<close>, \<open>for k, v in info.items(): attrs[k] = str(v)\<close>, over the
  items in the order of the dictionary: the first item that h5py refuses ends it, with
  the items before it stored and the items after it not.
\<close>

fun store_items ::
  "(string \<times> pyval) list \<Rightarrow> (string \<rightharpoonup> string) \<Rightarrow> pyexc option \<times> (string \<rightharpoonup> string)" where
  "store_items [] m = (None, m)"
| "store_items ((k, v) # info) m =
     (case attrs_setitem m k (py_str v) of
        Inl e \<Rightarrow> (Some e, m)
      | Inr m' \<Rightarrow> store_items info m')"

text \<open>\<open>add_metadata\<close>: the version stamp first, then the items of \<open>info\<close>.\<close>

definition add_metadata :: "('a, 'b) store \<Rightarrow> (string \<times> pyval) list \<Rightarrow> ('a, 'b) store outcome" where
  "add_metadata st info =
     (case dataset st of
        None \<Rightarrow> Raised AttributeError st
      | Some d \<Rightarrow>
          (case attrs_setitem (attrs d) ''version'' VERSION of
             Inl e \<Rightarrow> Raised e st
           | Inr m0 \<Rightarrow>
               (case store_items info m0 of
                  (None, m) \<Rightarrow> Done (st\<lparr>dataset := Some (d\<lparr>attrs := m\<rparr>)\<rparr>)
                | (Some e, m) \<Rightarrow> Raised e (st\<lparr>dataset := Some (d\<lparr>attrs := m\<rparr>)\<rparr>))))"

text \<open>
  \<open>_init\<close>: the two datasets are created from the first batch with the first axis
  unlimited, \<open>maxshape=(None,) + np.shape(data)[1:]\<close>, and with the compression of
  the store.
\<close>

definition init :: "('a, 'b) store \<Rightarrow> 'a ndarray \<Rightarrow> 'b ndarray \<Rightarrow> ('a, 'b) store outcome" where
  "init st data labels =
     (case file_handle st of
        None \<Rightarrow> Raised AttributeError st
      | Some f \<Rightarrow>
          (case create_dataset f ''data'' (shape data) (data_type st)
                  (None # map Some (tl (shape data))) data (compression st) of
             Inl e \<Rightarrow> Raised e st
           | Inr (f1, d) \<Rightarrow>
               (let st1 = st\<lparr>file_handle := Some f1, dataset := Some d\<rparr>
                in case create_dataset f1 ''labels'' (shape labels) (label_type st)
                          (None # map Some (tl (shape labels))) labels (compression st) of
                     Inl e \<Rightarrow> Raised e st1
                   | Inr (f2, l) \<Rightarrow>
                       Done (st1\<lparr>file_handle := Some f2, labelset := Some l, initialized := True\<rparr>))))"

text \<open>
  The four lines that \<open>append\<close> runs on each of the two datasets:
  \<^verbatim>\<open>shape = np.array(ds.shape); shape[0] += val.shape[0]; ds.resize(shape); ds[-val.shape[0]:, ...] = val\<close>
  The result is the exception, if any, and the dataset as it is left.
\<close>

definition extend :: "'a::zero dataset \<Rightarrow> 'a ndarray \<Rightarrow> 'a dataset outcome" where
  "extend d val =
     (case shape d of
        [] \<Rightarrow> Raised IndexError d
      | n # s \<Rightarrow>
          (case shape val of
             [] \<Rightarrow> Raised IndexError d
           | c # t \<Rightarrow>
               (case resize d ((n + c) # s) of
                  Inl e \<Rightarrow> Raised e d
                | Inr d1 \<Rightarrow>
                    (case setitem_tail d1 c val of
                       Inl e \<Rightarrow> Raised e d1
                     | Inr d2 \<Rightarrow> Done d2))))"

text \<open>\<open>append\<close>: the first call initialises; later calls extend the data, then the labels.\<close>

definition append_store ::
  "('a::zero, 'b::zero) store \<Rightarrow> 'a ndarray \<Rightarrow> 'b ndarray \<Rightarrow> ('a, 'b) store outcome" where
  "append_store st data labels =
     (if \<not> initialized st then init st data labels
      else case dataset st of
             None \<Rightarrow> Raised AttributeError st
           | Some d \<Rightarrow>
               (case extend d data of
                  Raised e d1 \<Rightarrow> Raised e (st\<lparr>dataset := Some d1\<rparr>)
                | Done d1 \<Rightarrow>
                    (let st1 = st\<lparr>dataset := Some d1\<rparr>
                     in case labelset st1 of
                          None \<Rightarrow> Raised AttributeError st1
                        | Some l \<Rightarrow>
                            (case extend l labels of
                               Raised e l1 \<Rightarrow> Raised e (st1\<lparr>labelset := Some l1\<rparr>)
                             | Done l1 \<Rightarrow> Done (st1\<lparr>labelset := Some l1\<rparr>)))))"


section \<open>Observing a store\<close>

text \<open>The exception of a call, if it raised one, and the store it leaves behind.\<close>

fun raised :: "'s outcome \<Rightarrow> pyexc option" where
  "raised (Done s) = None"
| "raised (Raised e s) = Some e"

fun state_of :: "'s outcome \<Rightarrow> 's" where
  "state_of (Done s) = s"
| "state_of (Raised e s) = s"

text \<open>
  The invariant of a dataset that \<open>_init\<close> created: it has a first axis, its elements
  fill its shape, and only the first axis is unlimited.
\<close>

definition wf_dataset :: "'a dataset \<Rightarrow> bool" where
  "wf_dataset d =
     (shape d \<noteq> [] \<and> wf_array d \<and> maxshape d = None # map Some (tl (shape d)))"

text \<open>An initialised store: \<open>_init\<close> has run to its end, and both datasets exist.\<close>

definition ready :: "('a, 'b) store \<Rightarrow> bool" where
  "ready st =
     (initialized st
      \<and> (case dataset st of None \<Rightarrow> False | Some d \<Rightarrow> wf_dataset d)
      \<and> (case labelset st of None \<Rightarrow> False | Some l \<Rightarrow> wf_dataset l))"

text \<open>An initialised store whose arrays have the per-sample shapes \<open>S\<close> and \<open>T\<close>.\<close>

definition fixed_shapes :: "('a, 'b) store \<Rightarrow> nat list \<Rightarrow> nat list \<Rightarrow> bool" where
  "fixed_shapes st S T =
     (ready st
      \<and> map_option sample_shape (dataset st) = Some S
      \<and> map_option sample_shape (labelset st) = Some T)"

text \<open>A store as \<open>__enter__\<close> leaves it: open, with an empty file, before the first append.\<close>

definition fresh :: "('a, 'b) store \<Rightarrow> bool" where
  "fresh st =
     (\<not> initialized st \<and> dataset st = None \<and> labelset st = None
      \<and> (case file_handle st of None \<Rightarrow> False | Some f \<Rightarrow> members f = []))"

text \<open>The total sample counts of the two arrays (no array yet: no sample).\<close>

definition data_count :: "('a, 'b) store \<Rightarrow> nat" where
  "data_count st = (case dataset st of None \<Rightarrow> 0 | Some d \<Rightarrow> n_samples d)"

definition label_count :: "('a, 'b) store \<Rightarrow> nat" where
  "label_count st = (case labelset st of None \<Rightarrow> 0 | Some l \<Rightarrow> n_samples l)"

text \<open>An attribute of the data array.\<close>

definition attr :: "('a, 'b) store \<Rightarrow> string \<Rightarrow> string option" where
  "attr st k = (case dataset st of None \<Rightarrow> None | Some d \<Rightarrow> attrs d k)"

text \<open>
  The dictionaries whose every item h5py stores: no key is empty, and neither a key nor
  the string of a value has a NUL character in it.
\<close>

definition storable :: "(string \<times> pyval) list \<Rightarrow> bool" where
  "storable info =
     list_all (\<lambda>(k, v). k \<noteq> [] \<and> CHR 0x00 \<notin> set k \<and> CHR 0x00 \<notin> set (py_str v)) info"

text \<open>
  The value that a dictionary has for a key.  In the list of the items of a Python
  dictionary every key occurs once; of several items with one key the last is taken.
\<close>

definition lookup :: "(string \<times> pyval) list \<Rightarrow> string \<Rightarrow> pyval option" where
  "lookup info k = map_of (rev info) k"

text \<open>A caller that appends one batch after the other and stops at the first exception.\<close>

fun appends ::
  "('a::zero, 'b::zero) store \<Rightarrow> ('a ndarray \<times> 'b ndarray) list \<Rightarrow> ('a, 'b) store outcome" where
  "appends st [] = Done st"
| "appends st ((data, labels) # bs) =
     (case append_store st data labels of
        Done st' \<Rightarrow> appends st' bs
      | Raised e st' \<Rightarrow> Raised e st')"

text \<open>
  The stores on which \<open>append\<close> was never called: a store is constructed, and then
  only entered or asked to add metadata.
\<close>

inductive never_appended :: "('a, 'b) store \<Rightarrow> bool" where
  constructed: "HDF5DatasetExtendable fname dt lt cmpr = Inr st \<Longrightarrow> never_appended st"
| entered: "never_appended st \<Longrightarrow> never_appended (state_of (enter st))"
| described: "never_appended st \<Longrightarrow> never_appended (state_of (add_metadata st info))"


section \<open>Example stores and batches\<close>

text \<open>
  The examples hold small integers, which the element types of the test script
  (\<open>np.float32\<close> for the data, \<open>np.int\<close> for the labels) represent exactly: their
  conversion leaves every element of the examples as it is.
\<close>

definition exact :: "int \<Rightarrow> int" where
  "exact x = x"

text \<open>
  An array in a memory that holds \<open>junk\<close> behind every buffer, and the arrays of the
  test script, \<open>np.array([range(c) for x in range(r)])\<close>.
\<close>

definition arr :: "nat list \<Rightarrow> int list \<Rightarrow> int \<Rightarrow> int ndarray" where
  "arr shp xs junk = \<lparr>shape = shp, elems = xs, beyond = (\<lambda>i. junk)\<rparr>"

definition range_rows :: "nat \<Rightarrow> nat \<Rightarrow> int ndarray" where
  "range_rows r c = arr [r, c] (concat (replicate r (map int [0..<c]))) 0"

text \<open>The store \<open>HDF5DatasetExtendable("test.hdf5")\<close> after \<open>__enter__\<close>.\<close>

definition test_store :: "(int, int) store" where
  "test_store =
     \<lparr>filename = ''test.hdf5'', data_type = exact, label_type = exact,
      compression = None, initialized = False,
      file_handle = Some \<lparr>path = ''test.hdf5'', members = []\<rparr>,
      dataset = None, labelset = None\<rparr>"

text \<open>A small store: one sample of per-sample shape \<open>(2,)\<close> in each array.\<close>

definition small_store :: "(int, int) store" where
  "small_store =
     \<lparr>filename = ''test.hdf5'', data_type = exact, label_type = exact,
      compression = None, initialized = True,
      file_handle = Some \<lparr>path = ''test.hdf5'', members = [''data'', ''labels'']\<rparr>,
      dataset = Some \<lparr>shape = [1, 2], elems = [5, 6], dtype = exact,
                      maxshape = [None, Some 2], attrs = Map.empty\<rparr>,
      labelset = Some \<lparr>shape = [1, 2], elems = [1, 2], dtype = exact,
                       maxshape = [None, Some 2], attrs = Map.empty\<rparr>\<rparr>"


section \<open>Buffers, resizing and broadcasting\<close>

lemma block_0: "block k 0 xs = take k xs"
  by (simp add: block_def)

lemma block_Suc: "block k (Suc i) xs = block k i (drop k xs)"
  by (simp add: block_def add.commute)

lemma block_append: "(Suc i) * k \<le> length xs \<Longrightarrow> block k i (xs @ ys) = block k i xs"
proof -
  assume h: "(Suc i) * k \<le> length xs"
  then have "i * k \<le> length xs" and "k \<le> length xs - i * k" by auto
  then show ?thesis by (simp add: block_def)
qed

lemma block_append_right: "length xs = n * k \<Longrightarrow> block k (n + j) (xs @ ys) = block k j ys"
  by (simp add: block_def add_mult_distrib)

lemma concat_blocks:
  "length xs = n * k \<Longrightarrow> concat (map (\<lambda>i. block k i xs) [0..<n]) = xs"
proof (induction n arbitrary: xs)
  case 0
  then show ?case by simp
next
  case (Suc n)
  have len: "length (drop k xs) = n * k" using Suc.prems by simp
  have "concat (map (\<lambda>i. block k i xs) [0..<Suc n])
        = block k 0 xs @ concat (map (\<lambda>i. block k (Suc i) xs) [0..<n])"
    by (simp add: upt_conv_Cons map_Suc_upt [symmetric] o_def del: upt_Suc)
  also have "\<dots> = take k xs @ concat (map (\<lambda>i. block k i (drop k xs)) [0..<n])"
    by (simp add: block_0 block_Suc)
  also have "\<dots> = take k xs @ drop k xs" using Suc.IH [OF len] by simp
  finally show ?case by simp
qed

lemma length_block: "(Suc i) * k \<le> length xs \<Longrightarrow> length (block k i xs) = k"
  by (auto simp: block_def)

lemma resize_elems_same: "length xs = prod_list s \<Longrightarrow> resize_elems s s xs = xs"
proof (induction s arbitrary: xs)
  case Nil
  then show ?case by simp
next
  case (Cons n s)
  have "\<And>i. i < n \<Longrightarrow> resize_elems s s (block (prod_list s) i xs) = block (prod_list s) i xs"
  proof -
    fix i assume "i < n"
    then have "Suc i * prod_list s \<le> length xs" using Cons.prems
      by (metis Suc_leI mult_le_mono1 prod_list.Cons)
    then show "resize_elems s s (block (prod_list s) i xs) = block (prod_list s) i xs"
      using Cons.IH length_block by blast
  qed
  then have meq: "map (\<lambda>i. if i < n then resize_elems s s (block (prod_list s) i xs)
                      else replicate (prod_list s) 0) [0..<n]
           = map (\<lambda>i. block (prod_list s) i xs) [0..<n]"
    by simp
  have "resize_elems (n # s) (n # s) xs = concat (map (\<lambda>i. block (prod_list s) i xs) [0..<n])"
    by (simp only: resize_elems.simps meq)
  also have "\<dots> = xs" using concat_blocks [of xs n "prod_list s"] Cons.prems by simp
  finally show ?case .
qed


lemma resize_elems_blocks:
  assumes "length xs = n * prod_list s"
  shows "map (\<lambda>i. if i < n then resize_elems s s (block (prod_list s) i xs)
                     else replicate (prod_list s) (0::'a::zero)) [0..<n]
         = map (\<lambda>i. block (prod_list s) i xs) [0..<n]"
proof -
  have "resize_elems s s (block (prod_list s) i xs) = block (prod_list s) i xs" if "i < n" for i
  proof -
    have "Suc i * prod_list s \<le> length xs" using that assms
      by (metis Suc_leI mult_le_mono1)
    then show ?thesis using resize_elems_same length_block by blast
  qed
  then show ?thesis by simp
qed

lemma concat_replicate_upt:
  "concat (map (\<lambda>i. if i < n then f i else replicate k z) [n..<n + c]) = replicate (c * k) z"
proof (induction c)
  case 0
  then show ?case by simp
next
  case (Suc c)
  have "concat (map (\<lambda>i. if i < n then f i else replicate k z) [n..<n + Suc c])
        = replicate (c * k) z @ replicate k z"
    using Suc.IH by simp
  also have "\<dots> = replicate (c * k + k) z"
    by (simp only: replicate_add)
  finally show ?case by simp
qed

lemma resize_elems_grow:
  assumes "length xs = n * prod_list s"
  shows "resize_elems (n # s) ((n + c) # s) xs = xs @ replicate (c * prod_list s) 0"
proof -
  define g where "g = (\<lambda>i. if i < n then resize_elems s s (block (prod_list s) i xs)
                 else replicate (prod_list s) (0::'a))"
  have split: "[0..<n + c] = [0..<n] @ [n..<n + c]"
    by (rule upt_add_eq_append) simp
  have "resize_elems (n # s) ((n + c) # s) xs = concat (map g [0..<n + c])"
    unfolding g_def by (rule resize_elems.simps(1))
  also have "\<dots> = concat (map g [0..<n]) @ concat (map g [n..<n + c])"
    unfolding split by (simp only: map_append concat_append)
  finally have step: "resize_elems (n # s) ((n + c) # s) xs
      = concat (map g [0..<n]) @ concat (map g [n..<n + c])" .
  have left: "concat (map g [0..<n]) = xs"
    unfolding g_def resize_elems_blocks [OF assms] by (rule concat_blocks [OF assms])
  have right: "concat (map g [n..<n + c]) = replicate (c * prod_list s) 0"
    unfolding g_def by (rule concat_replicate_upt)
  show ?thesis unfolding step left right ..
qed

lemma broadcast_same: "length xs = prod_list s \<Longrightarrow> broadcast s s xs = xs"
proof (induction s arbitrary: xs)
  case Nil
  then show ?case by simp
next
  case (Cons n s)
  have "broadcast s s (block (prod_list s) i xs) = block (prod_list s) i xs" if "i < n" for i
  proof -
    have "Suc i * prod_list s \<le> length xs" using that Cons.prems
      by (metis Suc_leI mult_le_mono1 prod_list.Cons)
    then show ?thesis using Cons.IH length_block by blast
  qed
  then have "map (\<lambda>i. broadcast s s (block (prod_list s) i xs)) [0..<n]
             = map (\<lambda>i. block (prod_list s) i xs) [0..<n]"
    by simp
  then have "broadcast (n # s) (n # s) xs = concat (map (\<lambda>i. block (prod_list s) i xs) [0..<n])"
    by (simp only: broadcast.simps refl if_True)
  then show ?case using concat_blocks [of xs n "prod_list s"] Cons.prems by simp
qed

lemma expand_rev_same: "expand_rev r r = Some r"
  by (induction r) simp_all

lemma expand_shape_same: "expand_shape s s = Some s"
  by (simp add: expand_shape_def expand_rev_same)

lemma expand_rev_no_surplus_zero:
  "expand_rev cs ts = Some e \<Longrightarrow> 0 \<notin> set cs \<Longrightarrow> length ts \<le> length cs \<Longrightarrow> 0 \<notin> set ts"
proof (induction cs ts arbitrary: e rule: expand_rev.induct)
  case (1 src)
  then show ?case by simp
next
  case (2 c cs)
  then show ?case by simp
next
  case (3 c cs t ts)
  then show ?case by (auto split: if_splits)
qed

lemma expand_shape_no_surplus_zero:
  assumes "expand_shape cs ts = Some e" and "0 \<notin> set cs" and "length ts \<le> length cs"
  shows "0 \<notin> set ts"
proof -
  from assms(1) obtain r where "expand_rev (rev cs) (rev ts) = Some r"
    by (auto simp: expand_shape_def)
  moreover have "0 \<notin> set (rev cs)" using assms(2) by simp
  moreover have "length (rev ts) \<le> length (rev cs)" using assms(3) by simp
  ultimately have "0 \<notin> set (rev ts)" by (rule expand_rev_no_surplus_zero)
  then show ?thesis by simp
qed

lemma prod_list_pos_iff: "0 < prod_list (s::nat list) \<longleftrightarrow> 0 \<notin> set s"
  by (induction s) auto

lemma length_concat_const:
  "(\<And>x. x \<in> set xs \<Longrightarrow> length (f x) = k) \<Longrightarrow> length (concat (map f xs)) = length xs * k"
  by (induction xs) simp_all

lemma expand_rev_compat:
  "expand_rev cs ts = Some e \<Longrightarrow> list_all2 (\<lambda>e c. e = 1 \<or> e = c) e cs"
proof (induction cs ts arbitrary: e rule: expand_rev.induct)
  case (1 src)
  then show ?case by (auto split: if_splits)
next
  case (2 c cs)
  then obtain r where "expand_rev cs [] = Some r" and "e = 1 # r" by auto
  with "2.IH" show ?case by simp
next
  case (3 c cs t ts)
  then have ok: "t = 1 \<or> c = t" by (auto split: if_splits)
  with "3.prems" obtain r where r: "expand_rev cs ts = Some r" and e: "e = t # r" by auto
  from "3.IH" [OF ok r] e ok show ?case by auto
qed

lemma expand_shape_compat:
  assumes "expand_shape cs ts = Some e"
  shows "list_all2 (\<lambda>e c. e = 1 \<or> e = c) e cs"
proof -
  from assms obtain r where r: "expand_rev (rev cs) (rev ts) = Some r" and e: "e = rev r"
    by (auto simp: expand_shape_def)
  from expand_rev_compat [OF r]
  have "list_all2 (\<lambda>e c. e = 1 \<or> e = c) (rev r) (rev (rev cs))"
    by (simp only: list_all2_rev)
  then show ?thesis using e by simp
qed

lemma length_broadcast:
  "list_all2 (\<lambda>e c. e = 1 \<or> e = c) es cs \<Longrightarrow> length xs = prod_list es \<Longrightarrow>
     length (broadcast es cs xs) = prod_list cs"
proof (induction es cs arbitrary: xs rule: list_all2_induct)
  case Nil
  then show ?case by simp
next
  case (Cons e es c cs)
  show ?case
  proof (cases "e = c")
    case True
    have "length (broadcast es cs (block (prod_list es) i xs)) = prod_list cs" if "i \<in> set [0..<c]" for i
    proof -
      from that have "Suc i * prod_list es \<le> length xs"
        using Cons.prems True by (metis Suc_leI atLeastLessThan_iff mult_le_mono1 prod_list.Cons set_upt)
      then show ?thesis using Cons.IH length_block by blast
    qed
    then have "length (concat (map (\<lambda>i. broadcast es cs (block (prod_list es) i xs)) [0..<c]))
               = length [0..<c] * prod_list cs"
      by (rule length_concat_const)
    then show ?thesis using True by simp
  next
    case False
    with Cons.hyps have "e = 1" by simp
    then have "length (broadcast es cs xs) = prod_list cs" using Cons.IH Cons.prems by simp
    then show ?thesis using False by (simp add: length_concat sum_list_replicate)
  qed
qed

lemma length_buffer: "length (buffer a k) = k"
  by (simp add: buffer_def)

lemma buffer_exact: "wf_array a \<Longrightarrow> buffer a (prod_list (shape a)) = elems a"
  by (simp add: buffer_def wf_array_def)

lemma within_maxshape_fixed: "within_maxshape s (map Some s)"
  by (induction s) (simp_all add: within_maxshape_def)

lemma resize_grow:
  assumes "wf_dataset d" and "shape d = n # s"
  shows "resize d ((n + c) # s)
         = Inr (d\<lparr>shape := (n + c) # s, elems := elems d @ replicate (c * prod_list s) 0\<rparr>)"
proof -
  have len: "length (elems d) = n * prod_list s"
    using assms by (simp add: wf_dataset_def wf_array_def)
  have "within_maxshape ((n + c) # s) (maxshape d)"
    using assms within_maxshape_fixed [of s] by (simp add: wf_dataset_def within_maxshape_def)
  then show ?thesis
    using assms(2) resize_elems_grow [OF len] by (simp add: resize_def)
qed

text \<open>What the four lines of \<open>append\<close> do to a dataset, for a batch with samples.\<close>

lemma extend_nonempty:
  assumes "wf_dataset d" and "shape d = n # s" and "shape val = c # t" and "0 < c"
  shows "extend d val =
     (if prod_list s = 0 then Done (d\<lparr>shape := (n + c) # s\<rparr>)
      else case expand_shape (c # s) (c # t) of
             None \<Rightarrow> Raised TypeError
                       (d\<lparr>shape := (n + c) # s, elems := elems d @ replicate (c * prod_list s) 0\<rparr>)
           | Some e \<Rightarrow> Done (d\<lparr>shape := (n + c) # s,
                  elems := elems d @ broadcast e (c # s) (map (dtype d) (buffer val (prod_list e)))\<rparr>))"
proof -
  have len: "length (elems d) = n * prod_list s"
    using assms by (simp add: wf_dataset_def wf_array_def)
  show ?thesis
    using assms(2-4) len
    by (simp add: extend_def resize_grow [OF assms(1,2)] setitem_tail_def split: option.split)
qed

text \<open>The same for a batch without samples: the slice \<open>-0:\<close> selects every row.\<close>

lemma extend_empty:
  assumes "wf_dataset d" and "shape d = n # s" and "shape val = 0 # t"
  shows "extend d val =
     (if n * prod_list s = 0 then Done d
      else case expand_shape (n # s) (0 # t) of
             None \<Rightarrow> Raised TypeError d
           | Some e \<Rightarrow> Done (d\<lparr>elems :=
                  broadcast e (n # s) (map (dtype d) (buffer val (prod_list e)))\<rparr>))"
proof -
  have same: "d\<lparr>shape := n # s, elems := elems d\<rparr> = d"
    using assms(2) by simp
  show ?thesis
    using assms(2,3) resize_grow [OF assms(1,2), of 0]
    by (simp add: extend_def setitem_tail_def same split: option.split)
qed

lemma extend_empty_raises:
  assumes "wf_dataset d" and "shape d = n # s" and "shape val = 0 # t"
    and "0 < n" and "0 \<notin> set s" and "length t \<le> length s"
  shows "extend d val = Raised TypeError d"
proof -
  have nz: "0 \<notin> set (n # s)" using assms(4,5) by simp
  have "expand_shape (n # s) (0 # t) = None"
  proof (cases "expand_shape (n # s) (0 # t)")
    case None
    then show ?thesis .
  next
    case (Some e)
    then have "0 \<notin> set (0 # t)"
      using nz assms(6) by (intro expand_shape_no_surplus_zero [OF Some]) simp_all
    then show ?thesis by simp
  qed
  moreover have "n * prod_list s \<noteq> 0"
    using nz by (simp add: prod_list_pos_iff [symmetric])
  ultimately show ?thesis
    using extend_empty [OF assms(1-3)] by simp
qed


section \<open>Metadata and construction\<close>

lemma never_appended_no_dataset: "never_appended st \<Longrightarrow> dataset st = None"
proof (induction rule: never_appended.induct)
  case (constructed fname dt lt cmpr st)
  then show ?case by (auto simp: HDF5DatasetExtendable_def split: if_splits)
next
  case (entered st)
  then show ?case by (simp add: enter_def split: option.split)
next
  case (described st info)
  then show ?case by (simp add: add_metadata_def)
qed

text \<open>
  Claim C7.  On every store on which \<open>append\<close> has never been called (constructed, then
  possibly entered or asked for metadata before), \<open>add_metadata\<close> fails: reading
  \<open>self.dataset\<close> raises \<open>AttributeError\<close>, the specification's
  \<open>UninitializedContainerError\<close>, and the store is left as it was.
\<close>

theorem metadata_before_append:
  "never_appended st \<Longrightarrow> add_metadata st info = Raised AttributeError st"
  by (simp add: add_metadata_def never_appended_no_dataset)

theorem metadata_before_append_witness:
  "never_appended (state_of (enter (test_store\<lparr>file_handle := None\<rparr>)))
   \<and> state_of (enter (test_store\<lparr>file_handle := None\<rparr>)) = test_store
   \<and> add_metadata test_store [(''augmentation'', PyStr ''shifted'')]
       = Raised AttributeError test_store"
proof -
  have "HDF5DatasetExtendable ''test.hdf5'' exact exact None
        = Inr (test_store\<lparr>file_handle := None\<rparr>)"
    by (simp add: HDF5DatasetExtendable_def test_store_def)
  then have "never_appended (test_store\<lparr>file_handle := None\<rparr>)"
    by (rule never_appended.constructed)
  then have n: "never_appended (state_of (enter (test_store\<lparr>file_handle := None\<rparr>)))"
    by (rule never_appended.entered)
  have e: "state_of (enter (test_store\<lparr>file_handle := None\<rparr>)) = test_store"
    by (simp add: enter_def test_store_def)
  from n e metadata_before_append [of test_store "[(''augmentation'', PyStr ''shifted'')]"]
  show ?thesis by simp
qed

text \<open>
  Claim C8.  The constructor asserts \<open>".hdf5" in filename\<close>, with the message that the
  file name must be a \<open>.hdf5\<close> file.  The test is for a substring, not for the
  extension: the path \<open>data.hdf5.txt\<close> does not end in \<open>.hdf5\<close>, and the constructor
  accepts it where the claim has it raise.
\<close>

theorem constructor_accepts_inner_hdf5:
  "HDF5DatasetExtendable ''data.hdf5.txt'' dt lt cmpr
     = Inr \<lparr>filename = ''data.hdf5.txt'', data_type = dt, label_type = lt, compression = cmpr,
            initialized = False, file_handle = None, dataset = None, labelset = None\<rparr>
   \<and> \<not> endswith ''data.hdf5.txt'' ''.hdf5''"
  by (simp add: HDF5DatasetExtendable_def endswith_def)

lemma attrs_setitem_accepted:
  assumes "k \<noteq> []" and "CHR 0x00 \<notin> set k" and "CHR 0x00 \<notin> set v"
  shows "attrs_setitem m k v = Inr (m(k \<mapsto> v))"
proof -
  have tw: "takeWhile (\<lambda>c. c \<noteq> CHR 0x00) k = k"
    using assms(2) by (intro takeWhile_eq_all_conv [THEN iffD2]) auto
  show ?thesis unfolding attrs_setitem_def Let_def tw using assms(1,3) by simp
qed

lemma lookup_Cons:
  "lookup ((k, v) # info) k' =
     (case lookup info k' of Some w \<Rightarrow> Some w | None \<Rightarrow> if k' = k then Some v else None)"
  by (simp add: lookup_def map_add_def split: option.split)

lemma store_items_storable:
  "storable info \<Longrightarrow>
     fst (store_items info m) = None
     \<and> snd (store_items info m) k'
         = (case lookup info k' of Some w \<Rightarrow> Some (py_str w) | None \<Rightarrow> m k')"
proof (induction info arbitrary: m)
  case Nil
  then show ?case by (simp add: lookup_def)
next
  case (Cons kv info)
  obtain k v where kv: "kv = (k, v)" by (cases kv)
  from Cons.prems kv have ok: "k \<noteq> []" "CHR 0x00 \<notin> set k" "CHR 0x00 \<notin> set (py_str v)"
    and rest: "storable info"
    by (simp_all add: storable_def)
  have step: "store_items ((k, v) # info) m = store_items info (m(k \<mapsto> py_str v))"
    using attrs_setitem_accepted [OF ok] by simp
  from Cons.IH [OF rest, of "m(k \<mapsto> py_str v)"]
  have f: "fst (store_items info (m(k \<mapsto> py_str v))) = None"
    and s: "snd (store_items info (m(k \<mapsto> py_str v))) k'
            = (case lookup info k' of Some w \<Rightarrow> Some (py_str w)
               | None \<Rightarrow> (m(k \<mapsto> py_str v)) k')"
    by blast+
  show ?case
    unfolding kv step lookup_Cons f s by (simp split: option.split)
qed

lemma add_metadata_storable:
  assumes "dataset st = Some d" and "storable info"
  shows "raised (add_metadata st info) = None"
    and "attr (state_of (add_metadata st info)) k =
           (case lookup info k of
              Some w \<Rightarrow> Some (py_str w)
            | None \<Rightarrow> if k = ''version'' then Some VERSION else attr st k)"
    and "dataset (state_of (add_metadata st info)) \<noteq> None"
proof -
  have stamp: "attrs_setitem (attrs d) ''version'' VERSION = Inr ((attrs d)(''version'' \<mapsto> VERSION))"
    by (rule attrs_setitem_accepted) (simp_all add: VERSION_def)
  obtain e m where sm: "store_items info ((attrs d)(''version'' \<mapsto> VERSION)) = (e, m)"
    by (cases "store_items info ((attrs d)(''version'' \<mapsto> VERSION))")
  from store_items_storable [OF assms(2), of "(attrs d)(''version'' \<mapsto> VERSION)" k] sm
  have e: "e = None"
    and m: "m k = (case lookup info k of Some w \<Rightarrow> Some (py_str w)
                   | None \<Rightarrow> ((attrs d)(''version'' \<mapsto> VERSION)) k)"
    by simp_all
  have res: "add_metadata st info = Done (st\<lparr>dataset := Some (d\<lparr>attrs := m\<rparr>)\<rparr>)"
    using assms(1) stamp sm e by (simp add: add_metadata_def)
  show "raised (add_metadata st info) = None" using res by simp
  show "dataset (state_of (add_metadata st info)) \<noteq> None" using res by simp
  show "attr (state_of (add_metadata st info)) k =
           (case lookup info k of
              Some w \<Rightarrow> Some (py_str w)
            | None \<Rightarrow> if k = ''version'' then Some VERSION else attr st k)"
    using res m assms(1) by (simp add: attr_def split: option.split)
qed

lemma lookup_None_iff: "lookup info k = None \<longleftrightarrow> k \<notin> fst ` set info"
  by (simp add: lookup_def map_of_eq_None_iff)

text \<open>
  Claim C6 (amended).  Let the store have its data array, and let two dictionaries
  hold only items that h5py stores.  Then \<open>add_metadata\<close> with the first and then with
  the second raises nothing, and afterwards every key of the second dictionary has the
  string of the value that the second dictionary gives it, whatever an earlier call
  stored under that key: \<open>add_metadata({"x": "a"})\<close> and then
  \<open>add_metadata({"x": "b"})\<close> leave \<open>x\<close> equal to \<open>"b"\<close>.  After a call whose
  dictionary has no key \<open>"version"\<close> the \<open>version\<close> attribute is \<open>"1.0.0"\<close>.
\<close>

theorem metadata_overwrite:
  assumes "dataset st = Some d" and "storable info1" and "storable info2"
  shows "raised (add_metadata st info1) = None
    \<and> raised (add_metadata (state_of (add_metadata st info1)) info2) = None
    \<and> (\<forall>k w. lookup info2 k = Some w \<longrightarrow>
          attr (state_of (add_metadata (state_of (add_metadata st info1)) info2)) k
            = Some (py_str w))
    \<and> (''version'' \<notin> fst ` set info1 \<longrightarrow>
          attr (state_of (add_metadata st info1)) ''version'' = Some ''1.0.0'')"
proof -
  let ?st1 = "state_of (add_metadata st info1)"
  from add_metadata_storable(3) [OF assms(1,2)]
  obtain d1 where d1: "dataset ?st1 = Some d1" by auto
  have a: "raised (add_metadata st info1) = None"
    by (rule add_metadata_storable(1) [OF assms(1,2)])
  have b: "raised (add_metadata ?st1 info2) = None"
    by (rule add_metadata_storable(1) [OF d1 assms(3)])
  have c: "attr (state_of (add_metadata ?st1 info2)) k = Some (py_str w)"
    if "lookup info2 k = Some w" for k w
    using add_metadata_storable(2) [OF d1 assms(3), of k] that by simp
  have v: "attr ?st1 ''version'' = Some ''1.0.0''" if "''version'' \<notin> fst ` set info1"
    using add_metadata_storable(2) [OF assms(1,2), of "''version''"] that
    by (simp add: lookup_None_iff [symmetric] VERSION_def)
  from a b c v show ?thesis by blast
qed

theorem metadata_overwrite_witness:
  "dataset small_store \<noteq> None
   \<and> storable [(''x'', PyStr ''a'')] \<and> storable [(''y'', PyInt 3), (''x'', PyStr ''b'')]
   \<and> lookup [(''y'', PyInt 3), (''x'', PyStr ''b'')] ''x'' = Some (PyStr ''b'')
   \<and> raised (add_metadata small_store [(''x'', PyStr ''a'')]) = None
   \<and> attr (state_of (add_metadata (state_of (add_metadata small_store [(''x'', PyStr ''a'')]))
              [(''y'', PyInt 3), (''x'', PyStr ''b'')])) ''x'' = Some ''b''
   \<and> ''version'' \<notin> fst ` set [(''x'', PyStr ''a'')]
   \<and> attr (state_of (add_metadata small_store [(''x'', PyStr ''a'')])) ''version'' = Some ''1.0.0''"
proof -
  have d: "dataset small_store = Some \<lparr>shape = [1, 2], elems = [5, 6], dtype = exact,
                      maxshape = [None, Some 2], attrs = Map.empty\<rparr>"
    by (simp add: small_store_def)
  have s1: "storable [(''x'', PyStr ''a'')]"
    by (simp add: storable_def)
  have s2: "storable [(''y'', PyInt 3), (''x'', PyStr ''b'')]"
    by (simp add: storable_def str_nat.simps digits_def)
  have l: "lookup [(''y'', PyInt 3), (''x'', PyStr ''b'')] ''x'' = Some (PyStr ''b'')"
    by (simp add: lookup_def)
  from metadata_overwrite [OF d s1 s2] d s1 s2 l
  show ?thesis by simp
qed

text \<open>
  Claim C6 as stated fails: the version is stamped before the items of \<open>info\<close> are
  stored, so a dictionary with the key \<open>"version"\<close> replaces the stamp.
\<close>

theorem version_overwritten_counterexample:
  "storable [(''version'', PyStr ''2.0.0'')]
   \<and> raised (add_metadata small_store [(''version'', PyStr ''2.0.0'')]) = None
   \<and> attr (state_of (add_metadata small_store [(''version'', PyStr ''2.0.0'')])) ''version''
       = Some ''2.0.0''
   \<and> VERSION = ''1.0.0''"
  by (simp add: add_metadata_def attrs_setitem_def small_store_def attr_def VERSION_def
      storable_def)


section \<open>What an append does to a dataset\<close>

lemma extend_match:
  assumes "wf_dataset d" and "shape d = n # s" and "shape val = c # s" and "0 < c"
    and "wf_array val"
  shows "extend d val
         = Done (d\<lparr>shape := (n + c) # s, elems := elems d @ map (dtype d) (elems val)\<rparr>)"
proof (cases "prod_list s = 0")
  case True
  then have "elems val = []" using assms(3,5) by (simp add: wf_array_def)
  then show ?thesis using True extend_nonempty [OF assms(1-4)] by simp
next
  case False
  have buf: "buffer val (prod_list (c # s)) = elems val"
    using buffer_exact [OF assms(5)] assms(3) by simp
  have "length (map (dtype d) (elems val)) = prod_list (c # s)"
    using assms(3,5) by (simp add: wf_array_def)
  then have "broadcast (c # s) (c # s) (map (dtype d) (elems val)) = map (dtype d) (elems val)"
    by (rule broadcast_same)
  then show ?thesis
    using False extend_nonempty [OF assms(1-4)] buf
    by (simp only: expand_shape_same option.case if_False)
qed

lemma extend_mismatch:
  assumes "wf_dataset d" and "shape d = n # s" and "shape val = c # t" and "0 < c"
    and "0 \<notin> set s" and "expand_shape (c # s) (c # t) = None"
  shows "extend d val = Raised TypeError
           (d\<lparr>shape := (n + c) # s, elems := elems d @ replicate (c * prod_list s) 0\<rparr>)"
proof -
  have "prod_list s \<noteq> 0" using assms(5) by (simp add: prod_list_pos_iff [symmetric])
  then show ?thesis using extend_nonempty [OF assms(1-4)] assms(6) by simp
qed


lemma wf_dataset_grown:
  assumes "wf_dataset d" and "shape d = n # s" and "length ys = c * prod_list s"
  shows "wf_dataset (d\<lparr>shape := (n + c) # s, elems := elems d @ ys\<rparr>)"
  using assms by (simp add: wf_dataset_def wf_array_def add_mult_distrib)

lemma extend_wf:
  assumes "wf_dataset d"
  shows "wf_dataset (state_of (extend d val))
         \<and> sample_shape (state_of (extend d val)) = sample_shape d"
proof -
  from assms obtain n s where d: "shape d = n # s"
    by (cases "shape d") (auto simp: wf_dataset_def)
  show ?thesis
  proof (cases "shape val")
    case Nil
    then show ?thesis using assms d by (simp add: extend_def)
  next
    case (Cons c t)
    show ?thesis
    proof (cases "c = 0")
      case True
      have "wf_dataset (d\<lparr>elems := broadcast e (n # s) (map (dtype d) (buffer val (prod_list e)))\<rparr>)"
        if "expand_shape (n # s) (0 # t) = Some e" for e
      proof -
        have "length (broadcast e (n # s) (map (dtype d) (buffer val (prod_list e))))
              = prod_list (n # s)"
          by (rule length_broadcast [OF expand_shape_compat [OF that]]) (simp add: length_buffer)
        then show ?thesis using assms d by (simp add: wf_dataset_def wf_array_def)
      qed
      then show ?thesis
        using True Cons extend_empty [OF assms d, of val t] assms
        by (auto simp: sample_shape_def split: option.split)
    next
      case False
      then have pos: "0 < c" by simp
      have a: "wf_dataset (d\<lparr>shape := (n + c) # s\<rparr>)" if "prod_list s = 0"
        using wf_dataset_grown [OF assms d, of "[]" c] that by simp
      have b: "wf_dataset (d\<lparr>shape := (n + c) # s,
                 elems := elems d @ replicate (c * prod_list s) 0\<rparr>)"
        by (rule wf_dataset_grown [OF assms d]) simp
      have c: "wf_dataset (d\<lparr>shape := (n + c) # s,
                 elems := elems d @ broadcast e (c # s) (map (dtype d) (buffer val (prod_list e)))\<rparr>)"
        if "expand_shape (c # s) (c # t) = Some e" for e
      proof -
        have "length (broadcast e (c # s) (map (dtype d) (buffer val (prod_list e))))
              = prod_list (c # s)"
          by (rule length_broadcast [OF expand_shape_compat [OF that]]) (simp add: length_buffer)
        then show ?thesis by (intro wf_dataset_grown [OF assms d]) simp
      qed
      show ?thesis
        using a b c d extend_nonempty [OF assms d Cons pos]
        by (auto simp: sample_shape_def split: option.split)
    qed
  qed
qed

lemma extend_Done_shape:
  assumes "shape d = n # s" and "extend d val = Done d'"
  shows "shape d' = (n + n_samples val) # s"
proof (cases "shape val")
  case Nil
  then show ?thesis using assms by (simp add: extend_def)
next
  case (Cons c t)
  then show ?thesis
    using assms
    by (auto simp: extend_def resize_def setitem_tail_def n_samples_def Let_def
        split: if_splits option.splits sum.splits)
qed

lemma extend_prefix:
  assumes "wf_dataset d" and "shape d = n # s" and "shape val = c # t" and "0 < c"
  shows "\<exists>ys. elems (state_of (extend d val)) = elems d @ ys"
  using extend_nonempty [OF assms] by (auto split: option.split)

text \<open>\<open>append\<close> on a store that is not initialised is \<open>_init\<close>, which creates both arrays.\<close>

lemma create_dataset_first_axis:
  assumes "shp \<noteq> []" and "shp = shape data" and "name \<notin> set (members f)"
    and "available cmpr"
  shows "create_dataset f name shp dt (None # map Some (tl shp)) data cmpr
         = Inr (f\<lparr>members := members f @ [name]\<rparr>,
                \<lparr>shape = shp, elems = map dt (buffer data (prod_list shp)), dtype = dt,
                 maxshape = None # map Some (tl shp), attrs = Map.empty\<rparr>)"
  using assms by (cases shp) (simp_all add: create_dataset_def)

lemma append_fresh:
  assumes "fresh st" and "file_handle st = Some f" and "available (compression st)"
    and "shape data \<noteq> []" and "shape labels \<noteq> []"
  shows "append_store st data labels =
           Done (st\<lparr>file_handle := Some (f\<lparr>members := [''data'', ''labels'']\<rparr>),
                    dataset := Some \<lparr>shape = shape data,
                      elems = map (data_type st) (buffer data (prod_list (shape data))),
                      dtype = data_type st,
                      maxshape = None # map Some (tl (shape data)), attrs = Map.empty\<rparr>,
                    labelset := Some \<lparr>shape = shape labels,
                      elems = map (label_type st) (buffer labels (prod_list (shape labels))),
                      dtype = label_type st,
                      maxshape = None # map Some (tl (shape labels)), attrs = Map.empty\<rparr>,
                    initialized := True\<rparr>)"
proof -
  from assms(1,2) have m: "members f = []" and ni: "\<not> initialized st"
    by (auto simp: fresh_def)
  have c1: "create_dataset f ''data'' (shape data) (data_type st)
              (None # map Some (tl (shape data))) data (compression st)
            = Inr (f\<lparr>members := [''data'']\<rparr>,
                \<lparr>shape = shape data,
                 elems = map (data_type st) (buffer data (prod_list (shape data))),
                 dtype = data_type st,
                 maxshape = None # map Some (tl (shape data)), attrs = Map.empty\<rparr>)"
    using create_dataset_first_axis [of "shape data" data "''data''" f "compression st"
        "data_type st"]
    by (simp add: assms(3,4) m)
  have c2: "create_dataset (f\<lparr>members := [''data'']\<rparr>) ''labels'' (shape labels)
              (label_type st) (None # map Some (tl (shape labels))) labels (compression st)
            = Inr (f\<lparr>members := [''data'', ''labels'']\<rparr>,
                \<lparr>shape = shape labels,
                 elems = map (label_type st) (buffer labels (prod_list (shape labels))),
                 dtype = label_type st,
                 maxshape = None # map Some (tl (shape labels)), attrs = Map.empty\<rparr>)"
    using create_dataset_first_axis [of "shape labels" labels "''labels''"
        "f\<lparr>members := [''data'']\<rparr>" "compression st" "label_type st"]
    by (simp add: assms(3,5))
  show ?thesis
    using ni assms(2) by (simp add: append_store_def init_def c1 c2 Let_def)
qed

lemma append_uninitialized_Done:
  assumes "\<not> initialized st" and "append_store st data labels = Done st'"
  shows "\<exists>d l. dataset st' = Some d \<and> labelset st' = Some l \<and> initialized st'
           \<and> shape d = shape data \<and> shape l = shape labels
           \<and> shape data \<noteq> [] \<and> shape labels \<noteq> [] \<and> available (compression st)"
  using assms
  by (auto simp: append_store_def init_def create_dataset_def Let_def
      split: option.splits sum.splits if_splits)

lemma append_initialized:
  assumes "initialized st" and "dataset st = Some d" and "labelset st = Some l"
  shows "append_store st data labels =
     (case extend d data of
        Raised e d1 \<Rightarrow> Raised e (st\<lparr>dataset := Some d1\<rparr>)
      | Done d1 \<Rightarrow>
          (case extend l labels of
             Raised e l1 \<Rightarrow> Raised e (st\<lparr>dataset := Some d1, labelset := Some l1\<rparr>)
           | Done l1 \<Rightarrow> Done (st\<lparr>dataset := Some d1, labelset := Some l1\<rparr>)))"
  using assms by (simp add: append_store_def split: outcome.split)

lemma ready_cases:
  assumes "ready st"
  obtains d l where "initialized st" "dataset st = Some d" "labelset st = Some l"
    "wf_dataset d" "wf_dataset l"
  using assms by (auto simp: ready_def split: option.splits)


section \<open>Shape fixation\<close>

lemma raised_None_Done: "raised r = None \<Longrightarrow> r = Done (state_of r)"
  by (cases r) simp_all








lemma small_store_reached:
  "append_store test_store (arr [1, 2] [5, 6] 9) (arr [1, 2] [1, 2] 9) = Done small_store"
proof -
  have f: "fresh test_store" by (simp add: fresh_def test_store_def)
  have h: "file_handle test_store = Some \<lparr>path = ''test.hdf5'', members = []\<rparr>"
    by (simp add: test_store_def)
  have b: "buffer (arr [1, 2] [5, 6] 9) 2 = [5, 6]" "buffer (arr [1, 2] [1, 2] 9) 2 = [1, 2]"
    by (simp_all add: buffer_def arr_def)
  show ?thesis
    using append_fresh [OF f h, of "arr [1, 2] [5, 6] 9" "arr [1, 2] [1, 2] 9"] b
    by (simp add: arr_def test_store_def small_store_def exact_def available_def)
qed





section \<open>Count accumulation\<close>

text \<open>Every successful append adds the sample counts of its batches to the totals.\<close>

lemma append_counts:
  assumes "if initialized st
           then \<exists>d l. dataset st = Some d \<and> labelset st = Some l \<and> shape d \<noteq> [] \<and> shape l \<noteq> []
           else dataset st = None \<and> labelset st = None"
    and "append_store st data labels = Done st'"
  shows "initialized st'
    \<and> (\<exists>d l. dataset st' = Some d \<and> labelset st' = Some l \<and> shape d \<noteq> [] \<and> shape l \<noteq> [])
    \<and> data_count st' = data_count st + n_samples data
    \<and> label_count st' = label_count st + n_samples labels"
proof (cases "initialized st")
  case False
  with assms(1) have none: "dataset st = None" "labelset st = None" by simp_all
  from append_uninitialized_Done [OF False assms(2)] none show ?thesis
    by (auto simp: data_count_def label_count_def n_samples_def)
next
  case True
  with assms(1) obtain d l where d: "dataset st = Some d" and l: "labelset st = Some l"
    and sd: "shape d \<noteq> []" and sl: "shape l \<noteq> []" by auto
  from sd sl obtain n s m u where nd: "shape d = n # s" and nl: "shape l = m # u"
    by (cases "shape d"; cases "shape l") auto
  from assms(2) obtain d1 l1 where e1: "extend d data = Done d1" and e2: "extend l labels = Done l1"
    and st': "st' = st\<lparr>dataset := Some d1, labelset := Some l1\<rparr>"
    by (auto simp: append_initialized [OF True d l] split: outcome.splits)
  from extend_Done_shape [OF nd e1] extend_Done_shape [OF nl e2] d l nd nl st' True
  show ?thesis
    by (simp add: data_count_def label_count_def n_samples_def)
qed

lemma appends_counts:
  assumes "if initialized st
           then \<exists>d l. dataset st = Some d \<and> labelset st = Some l \<and> shape d \<noteq> [] \<and> shape l \<noteq> []
           else dataset st = None \<and> labelset st = None"
    and "appends st bs = Done st'"
  shows "data_count st' = data_count st + sum_list (map (\<lambda>(data, labels). n_samples data) bs)
    \<and> label_count st' = label_count st + sum_list (map (\<lambda>(data, labels). n_samples labels) bs)"
  using assms
proof (induction bs arbitrary: st)
  case Nil
  then show ?case by simp
next
  case (Cons b bs)
  obtain data labels where b: "b = (data, labels)" by (cases b)
  from Cons.prems(2) b obtain st1 where a: "append_store st data labels = Done st1"
    and r: "appends st1 bs = Done st'"
    by (auto split: outcome.splits)
  note step = append_counts [OF Cons.prems(1) a]
  from step have inv: "if initialized st1
           then \<exists>d l. dataset st1 = Some d \<and> labelset st1 = Some l \<and> shape d \<noteq> [] \<and> shape l \<noteq> []
           else dataset st1 = None \<and> labelset st1 = None"
    by simp
  from Cons.IH [OF inv r] step b show ?case by simp
qed

text \<open>
  Claim C2.  A store is constructed and entered, and a sequence of appends succeeds.
  Then the sample count of the data array is the sum of the sample counts of the data
  batches, and the sample count of the label array is the sum of the sample counts of
  the label batches, each on its own.
\<close>

theorem count_accumulation:
  assumes "HDF5DatasetExtendable fname dt lt cmpr = Inr st0"
    and "enter st0 = Done st1"
    and "appends st1 bs = Done st2"
  shows "data_count st2 = sum_list (map (\<lambda>(data, labels). n_samples data) bs)
    \<and> label_count st2 = sum_list (map (\<lambda>(data, labels). n_samples labels) bs)"
proof -
  from assms(1) have "\<not> initialized st0" "dataset st0 = None" "labelset st0 = None"
    by (auto simp: HDF5DatasetExtendable_def split: if_splits)
  with assms(2) have "\<not> initialized st1" and none: "dataset st1 = None" "labelset st1 = None"
    by (auto simp: enter_def split: option.splits)
  then have "if initialized st1
           then \<exists>d l. dataset st1 = Some d \<and> labelset st1 = Some l \<and> shape d \<noteq> [] \<and> shape l \<noteq> []
           else dataset st1 = None \<and> labelset st1 = None"
    by simp
  from appends_counts [OF this assms(3)] none show ?thesis
    by (simp add: data_count_def label_count_def)
qed

theorem count_accumulation_witness:
  "HDF5DatasetExtendable ''test.hdf5'' exact exact None = Inr (test_store\<lparr>file_handle := None\<rparr>)
   \<and> enter (test_store\<lparr>file_handle := None\<rparr>) = Done test_store
   \<and> raised (appends test_store
        [(range_rows 10 10, range_rows 10 5), (range_rows 8 10, range_rows 8 5),
         (range_rows 3 10, range_rows 4 5)]) = None
   \<and> data_count (state_of (appends test_store
        [(range_rows 10 10, range_rows 10 5), (range_rows 8 10, range_rows 8 5),
         (range_rows 3 10, range_rows 4 5)])) = 21
   \<and> label_count (state_of (appends test_store
        [(range_rows 10 10, range_rows 10 5), (range_rows 8 10, range_rows 8 5),
         (range_rows 3 10, range_rows 4 5)])) = 22"
proof -
  let ?bs = "[(range_rows 10 10, range_rows 10 5), (range_rows 8 10, range_rows 8 5),
         (range_rows 3 10, range_rows 4 5)]"
  have c: "HDF5DatasetExtendable ''test.hdf5'' exact exact None
           = Inr (test_store\<lparr>file_handle := None\<rparr>)"
    by (simp add: HDF5DatasetExtendable_def test_store_def)
  have e: "enter (test_store\<lparr>file_handle := None\<rparr>) = Done test_store"
    by (simp add: enter_def test_store_def)
  have r: "raised (appends test_store ?bs) = None"
    by code_simp
  then have a: "appends test_store ?bs = Done (state_of (appends test_store ?bs))"
    by (rule raised_None_Done)
  from count_accumulation [OF c e a] c e r show ?thesis
    by (simp add: n_samples_def range_rows_def arr_def)
qed


section \<open>Batches without samples\<close>

lemma block_map: "block k i (map f xs) = map f (block k i xs)"
  by (simp add: block_def take_map drop_map)

text \<open>
  What an append of batches with samples does when their per-sample shapes are those
  of the arrays: each array grows by its own batch, whatever the two counts are.
\<close>

lemma append_matching:
  assumes "ready st" and "dataset st = Some d" and "labelset st = Some l"
    and "shape d = n # s" and "shape l = m # u"
    and "shape data = c # s" and "0 < c" and "wf_array data"
    and "shape labels = k # u" and "0 < k" and "wf_array labels"
  shows "append_store st data labels =
           Done (st\<lparr>dataset := Some (d\<lparr>shape := (n + c) # s,
                                         elems := elems d @ map (dtype d) (elems data)\<rparr>),
                    labelset := Some (l\<lparr>shape := (m + k) # u,
                                          elems := elems l @ map (dtype l) (elems labels)\<rparr>)\<rparr>)"
proof -
  from assms(1,2,3) have i: "initialized st" and wd: "wf_dataset d" and wl: "wf_dataset l"
    by (simp_all add: ready_def)
  show ?thesis
    by (simp add: append_initialized [OF i assms(2,3)]
        extend_match [OF wd assms(4,6,7,8)] extend_match [OF wl assms(5,9,10,11)])
qed

text \<open>An append of batches with samples leaves the rows that were there as they were.\<close>

lemma extend_keeps_rows:
  assumes "wf_dataset d" and "shape val = c # t" and "0 < c" and "extend d val = Done d'"
    and "i < n_samples d"
  shows "row d' i = row d i"
proof -
  from assms(1) obtain n s where d: "shape d = n # s"
    by (cases "shape d") (auto simp: wf_dataset_def)
  from extend_prefix [OF assms(1) d assms(2,3)] assms(4)
  obtain ys where ys: "elems d' = elems d @ ys" by auto
  from extend_wf [OF assms(1), of val] assms(4)
  have ss: "sample_shape d' = sample_shape d" by simp
  have len: "length (elems d) = n * prod_list s"
    using assms(1) d by (simp add: wf_dataset_def wf_array_def)
  from assms(5) d have "Suc i \<le> n" by (simp add: n_samples_def)
  then have "Suc i * prod_list s \<le> length (elems d)"
    unfolding len by (rule mult_le_mono1)
  then have "block (prod_list s) i (elems d @ ys) = block (prod_list s) i (elems d)"
    by (rule block_append)
  moreover have "prod_list (sample_shape d) = prod_list s"
    using d by (simp add: sample_shape_def)
  ultimately show ?thesis
    unfolding row_def ss ys by simp
qed

lemma prefix_preserved_nonempty:
  assumes "ready st" and "dataset st = Some d" and "labelset st = Some l"
    and "0 < n_samples data" and "0 < n_samples labels"
    and "append_store st data labels = Done st'"
  shows "\<exists>d' l'. dataset st' = Some d' \<and> labelset st' = Some l'
           \<and> (\<forall>i<n_samples d. row d' i = row d i)
           \<and> (\<forall>i<n_samples l. row l' i = row l i)"
proof -
  from assms(1,2,3) have i: "initialized st" and wd: "wf_dataset d" and wl: "wf_dataset l"
    by (simp_all add: ready_def)
  from assms(4,5) obtain c t k u where sd: "shape data = c # t" "0 < c"
    and sl: "shape labels = k # u" "0 < k"
    by (cases "shape data"; cases "shape labels") (auto simp: n_samples_def)
  from assms(6) obtain d1 l1 where e1: "extend d data = Done d1"
    and e2: "extend l labels = Done l1"
    and st': "st' = st\<lparr>dataset := Some d1, labelset := Some l1\<rparr>"
    by (auto simp: append_initialized [OF i assms(2,3)] split: outcome.splits)
  from extend_keeps_rows [OF wd sd e1] extend_keeps_rows [OF wl sl e2] st'
  show ?thesis by simp
qed

text \<open>
  Claim C3.  The rows of a batch are written to \<open>dataset[-data.shape[0]:, ...]\<close>, the
  last \<open>data.shape[0]\<close> rows.  For a batch without samples the slice is \<open>-0:\<close>, which
  is \<open>0:\<close> and selects every row.  With the batch \<open>np.empty((0, 1, 2))\<close> on an array
  of shape \<open>(1, 2)\<close> the append succeeds, and the row that was there is overwritten by
  what the memory holds behind the empty buffer (here \<open>9\<close>), where the claim has
  every earlier row unchanged.  For batches with samples the earlier rows are kept
  (\<open>prefix_preserved_nonempty\<close>).
\<close>

theorem empty_batch_overwrites_rows:
  "append_store test_store (arr [1, 2] [5, 6] 9) (arr [1, 2] [1, 2] 9) = Done small_store
   \<and> n_samples (arr [0, 1, 2] [] 9) = 0
   \<and> raised (append_store small_store (arr [0, 1, 2] [] 9) (arr [1, 2] [3, 4] 9)) = None
   \<and> map_option (\<lambda>d. row d 0) (dataset small_store) = Some [5, 6]
   \<and> map_option (\<lambda>d. row d 0)
        (dataset (state_of (append_store small_store (arr [0, 1, 2] [] 9) (arr [1, 2] [3, 4] 9))))
       = Some [9, 9]"
proof -
  have "n_samples (arr [0, 1, 2] [] 9) = 0"
    "raised (append_store small_store (arr [0, 1, 2] [] 9) (arr [1, 2] [3, 4] 9)) = None"
    "map_option (\<lambda>d. row d 0) (dataset small_store) = Some [5, 6]"
    "map_option (\<lambda>d. row d 0)
        (dataset (state_of (append_store small_store (arr [0, 1, 2] [] 9) (arr [1, 2] [3, 4] 9))))
       = Some [9, 9]"
    by code_simp+
  then show ?thesis using small_store_reached by simp
qed

text \<open>
  Claim C9.  The same slice makes an append fail that the claim has complete: the data
  batch \<open>np.empty((0, 2))\<close> has the per-sample shape of the array and another count
  than the label batch, and the write of no row to every row raises \<open>TypeError\<close>.
  For batches with samples the append completes and each array grows by its own count,
  whatever the two counts are (\<open>append_matching\<close>).
\<close>

theorem empty_batch_raises:
  "append_store test_store (arr [1, 2] [5, 6] 9) (arr [1, 2] [1, 2] 9) = Done small_store
   \<and> fixed_shapes small_store [2] [2]
   \<and> sample_shape (arr [0, 2] [] 9) = [2] \<and> sample_shape (arr [1, 2] [3, 4] 9) = [2]
   \<and> n_samples (arr [0, 2] [] 9) = 0 \<and> n_samples (arr [1, 2] [3, 4] 9) = 1
   \<and> raised (append_store small_store (arr [0, 2] [] 9) (arr [1, 2] [3, 4] 9)) = Some TypeError
   \<and> data_count (state_of (append_store small_store (arr [0, 2] [] 9) (arr [1, 2] [3, 4] 9))) = 1
   \<and> label_count (state_of (append_store small_store (arr [0, 2] [] 9) (arr [1, 2] [3, 4] 9))) = 1"
proof -
  have "fixed_shapes small_store [2] [2]"
    "sample_shape (arr [0, 2] [] 9) = [2]" "sample_shape (arr [1, 2] [3, 4] 9) = [2]"
    "n_samples (arr [0, 2] [] 9) = 0" "n_samples (arr [1, 2] [3, 4] 9) = 1"
    "raised (append_store small_store (arr [0, 2] [] 9) (arr [1, 2] [3, 4] 9)) = Some TypeError"
    "data_count (state_of (append_store small_store (arr [0, 2] [] 9) (arr [1, 2] [3, 4] 9))) = 1"
    "label_count (state_of (append_store small_store (arr [0, 2] [] 9) (arr [1, 2] [3, 4] 9))) = 1"
    by code_simp+
  then show ?thesis using small_store_reached by simp
qed


section \<open>Tail correctness\<close>

text \<open>The rows that a batch of the array's per-sample shape adds are the rows of the batch.\<close>

lemma extend_tail_rows:
  assumes "wf_dataset d" and "shape d = n # s" and "shape val = c # s" and "wf_array val"
    and "extend d val = Done d'"
  shows "n_samples d' = n + c
    \<and> (\<forall>j<c. row d' (n + j) = map (dtype d') (row val j))"
proof -
  have cnt: "n_samples d' = n + c"
    using extend_Done_shape [OF assms(2,5)] assms(3) by (simp add: n_samples_def)
  have "row d' (n + j) = map (dtype d') (row val j)" if "j < c" for j
  proof -
    from that have pos: "0 < c" by simp
    have len: "length (elems d) = n * prod_list s"
      using assms(1,2) by (simp add: wf_dataset_def wf_array_def)
    from extend_match [OF assms(1,2,3) pos assms(4)] assms(5)
    have d': "d' = d\<lparr>shape := (n + c) # s, elems := elems d @ map (dtype d) (elems val)\<rparr>"
      by simp
    have "row d' (n + j) = block (prod_list s) (n + j) (elems d @ map (dtype d) (elems val))"
      by (simp add: d' row_def sample_shape_def)
    also have "\<dots> = block (prod_list s) j (map (dtype d) (elems val))"
      by (rule block_append_right [OF len])
    also have "\<dots> = map (dtype d') (row val j)"
      using assms(3) by (simp add: d' row_def sample_shape_def block_map)
    finally show ?thesis .
  qed
  with cnt show ?thesis by simp
qed

lemma fresh_tail_rows:
  assumes "fresh st" and "wf_array data" and "wf_array labels"
    and "append_store st data labels = Done st'"
  shows "\<exists>d' l'. dataset st' = Some d' \<and> labelset st' = Some l'
    \<and> n_samples d' = n_samples data
    \<and> (\<forall>j. row d' j = map (dtype d') (row data j))
    \<and> n_samples l' = n_samples labels
    \<and> (\<forall>j. row l' j = map (dtype l') (row labels j))"
proof -
  from assms(1) obtain f where f: "file_handle st = Some f" and ni: "\<not> initialized st"
    by (auto simp: fresh_def split: option.splits)
  from append_uninitialized_Done [OF ni assms(4)]
  have ne: "shape data \<noteq> []" "shape labels \<noteq> []" and av: "available (compression st)"
    by auto
  from append_fresh [OF assms(1) f av ne] assms(4) buffer_exact [OF assms(2)]
    buffer_exact [OF assms(3)]
  show ?thesis
    by (auto simp: n_samples_def row_def sample_shape_def block_map)
qed

text \<open>
  Claim C4 (amended).  After a successful append, on a fresh or an initialised store,
  each array whose per-sample shape is that of its batch (on a fresh store: each array)
  has grown by the sample count of the batch, and its last rows are the rows of the
  batch, in order, each element converted to the element type of the array.
\<close>

theorem tail_correctness:
  assumes "fresh st \<or> ready st" and "wf_array data" and "wf_array labels"
    and "append_store st data labels = Done st'"
  shows "\<exists>d' l'. dataset st' = Some d' \<and> labelset st' = Some l'
    \<and> (fresh st \<or> map_option sample_shape (dataset st) = Some (sample_shape data) \<longrightarrow>
          n_samples d' = data_count st + n_samples data
          \<and> (\<forall>j<n_samples data. row d' (data_count st + j) = map (dtype d') (row data j)))
    \<and> (fresh st \<or> map_option sample_shape (labelset st) = Some (sample_shape labels) \<longrightarrow>
          n_samples l' = label_count st + n_samples labels
          \<and> (\<forall>j<n_samples labels. row l' (label_count st + j) = map (dtype l') (row labels j)))"
proof (cases "fresh st")
  case True
  then have "data_count st = 0" "label_count st = 0"
    by (simp_all add: fresh_def data_count_def label_count_def)
  with fresh_tail_rows [OF True assms(2,3,4)] show ?thesis by auto
next
  case False
  with assms(1) have "ready st" by simp
  then obtain d l where i: "initialized st" and d: "dataset st = Some d"
    and l: "labelset st = Some l" and wd: "wf_dataset d" and wl: "wf_dataset l"
    by (rule ready_cases)
  from wd wl obtain n s m u where sd: "shape d = n # s" and sl: "shape l = m # u"
    by (cases "shape d"; cases "shape l") (auto simp: wf_dataset_def)
  from assms(4) obtain d1 l1 where e1: "extend d data = Done d1"
    and e2: "extend l labels = Done l1"
    and st': "st' = st\<lparr>dataset := Some d1, labelset := Some l1\<rparr>"
    by (auto simp: append_initialized [OF i d l] split: outcome.splits)
  from e1 e2 sd sl obtain c t k u' where vd: "shape data = c # t" and vl: "shape labels = k # u'"
    by (cases "shape data"; cases "shape labels") (auto simp: extend_def)
  have a: "n_samples d1 = data_count st + n_samples data
           \<and> (\<forall>j<n_samples data. row d1 (data_count st + j) = map (dtype d1) (row data j))"
    if "sample_shape d = sample_shape data"
  proof -
    from that sd vd have "shape data = c # s" by (simp add: sample_shape_def)
    from extend_tail_rows [OF wd sd this assms(2) e1] d sd vd show ?thesis
      by (simp add: data_count_def n_samples_def)
  qed
  have b: "n_samples l1 = label_count st + n_samples labels
           \<and> (\<forall>j<n_samples labels. row l1 (label_count st + j) = map (dtype l1) (row labels j))"
    if "sample_shape l = sample_shape labels"
  proof -
    from that sl vl have "shape labels = k # u" by (simp add: sample_shape_def)
    from extend_tail_rows [OF wl sl this assms(3) e2] l sl vl show ?thesis
      by (simp add: label_count_def n_samples_def)
  qed
  from a b False d l st' show ?thesis by auto
qed

lemma extend_dtype: "dtype (state_of (extend d val)) = dtype d"
  by (auto simp: extend_def resize_def setitem_tail_def Let_def
      split: list.splits sum.splits option.splits)

lemma append_dtype:
  assumes "initialized st" and "dataset st = Some d" and "labelset st = Some l"
  shows "map_option dtype (dataset (state_of (append_store st data labels))) = Some (dtype d)"
    and "map_option dtype (labelset (state_of (append_store st data labels))) = Some (dtype l)"
  using extend_dtype [of d data] extend_dtype [of l labels] assms(3)
  by (auto simp: append_initialized [OF assms] split: outcome.splits)

lemma map_exact: "map exact xs = xs"
  by (induction xs) (simp_all add: exact_def)

text \<open>
  The witness is the scenario of the test script: batches of shapes \<open>(10,10)/(10,5)\<close>
  and then \<open>(8,10)/(8,5)\<close> give arrays of shapes \<open>(18,10)\<close> and \<open>(18,5)\<close>, the rows
  \<open>0\<close> to \<open>9\<close> those of the first batch and the rows \<open>10\<close> to \<open>17\<close> those of the second.
\<close>

theorem tail_correctness_witness:
  "fresh test_store
   \<and> raised (append_store test_store (range_rows 10 10) (range_rows 10 5)) = None
   \<and> ready (state_of (append_store test_store (range_rows 10 10) (range_rows 10 5)))
   \<and> raised (append_store (state_of (append_store test_store (range_rows 10 10) (range_rows 10 5)))
        (range_rows 8 10) (range_rows 8 5)) = None
   \<and> map (\<lambda>j. map_option (\<lambda>d. row d (10 + j))
          (dataset (state_of (append_store
             (state_of (append_store test_store (range_rows 10 10) (range_rows 10 5)))
             (range_rows 8 10) (range_rows 8 5))))) [0..<8]
        = map (\<lambda>j. Some (row (range_rows 8 10) j)) [0..<8]
   \<and> map (\<lambda>j. map_option (\<lambda>l. row l (10 + j))
          (labelset (state_of (append_store
             (state_of (append_store test_store (range_rows 10 10) (range_rows 10 5)))
             (range_rows 8 10) (range_rows 8 5))))) [0..<8]
        = map (\<lambda>j. Some (row (range_rows 8 5) j)) [0..<8]
   \<and> map_option (\<lambda>d. (shape d, elems d))
        (dataset (state_of (append_store
           (state_of (append_store test_store (range_rows 10 10) (range_rows 10 5)))
           (range_rows 8 10) (range_rows 8 5))))
      = Some ([18, 10], elems (range_rows 10 10) @ elems (range_rows 8 10))
   \<and> map_option (\<lambda>l. (shape l, elems l))
        (labelset (state_of (append_store
           (state_of (append_store test_store (range_rows 10 10) (range_rows 10 5)))
           (range_rows 8 10) (range_rows 8 5))))
      = Some ([18, 5], elems (range_rows 10 5) @ elems (range_rows 8 5))"
proof -
  let ?st1 = "state_of (append_store test_store (range_rows 10 10) (range_rows 10 5))"
  let ?st2 = "state_of (append_store ?st1 (range_rows 8 10) (range_rows 8 5))"
  have f: "fresh test_store" by code_simp
  have r1: "raised (append_store test_store (range_rows 10 10) (range_rows 10 5)) = None"
    by code_simp
  have rd: "ready ?st1" by code_simp
  have r2: "raised (append_store ?st1 (range_rows 8 10) (range_rows 8 5)) = None"
    by code_simp
  have w: "wf_array (range_rows 8 10)" "wf_array (range_rows 8 5)" by code_simp+
  have same: "map_option sample_shape (dataset ?st1) = Some (sample_shape (range_rows 8 10))"
    "map_option sample_shape (labelset ?st1) = Some (sample_shape (range_rows 8 5))"
    by code_simp+
  have cnt: "data_count ?st1 = 10" "label_count ?st1 = 10"
    "n_samples (range_rows 8 10) = 8" "n_samples (range_rows 8 5) = 8"
    by code_simp+
  have all: "map_option (\<lambda>d. (shape d, elems d)) (dataset ?st2)
      = Some ([18, 10], elems (range_rows 10 10) @ elems (range_rows 8 10))"
    "map_option (\<lambda>l. (shape l, elems l)) (labelset ?st2)
      = Some ([18, 5], elems (range_rows 10 5) @ elems (range_rows 8 5))"
    by code_simp+
  from rd obtain d l where i: "initialized ?st1" and d: "dataset ?st1 = Some d"
    and l: "labelset ?st1 = Some l"
    by (rule ready_cases)
  have "map_option dtype (dataset ?st1) = Some exact" "map_option dtype (labelset ?st1) = Some exact"
    using append_fresh [OF f, of "\<lparr>path = ''test.hdf5'', members = []\<rparr>"
        "range_rows 10 10" "range_rows 10 5"]
    by (simp_all add: test_store_def range_rows_def arr_def available_def)
  with d l have dt: "dtype d = exact" "dtype l = exact" by simp_all
  from tail_correctness [OF disjI2 [OF rd] w raised_None_Done [OF r2]] same cnt
  obtain d' l' where d': "dataset ?st2 = Some d'" and l': "labelset ?st2 = Some l'"
    and rows: "\<forall>j<8. row d' (10 + j) = map (dtype d') (row (range_rows 8 10) j)"
      "\<forall>j<8. row l' (10 + j) = map (dtype l') (row (range_rows 8 5) j)"
    by auto
  from append_dtype [OF i d l, of "range_rows 8 10" "range_rows 8 5"] d' l' dt
  have "dtype d' = exact" "dtype l' = exact" by simp_all
  with rows d' l' have each:
    "\<forall>j<8. map_option (\<lambda>d. row d (10 + j)) (dataset ?st2) = Some (row (range_rows 8 10) j)"
    "\<forall>j<8. map_option (\<lambda>l. row l (10 + j)) (labelset ?st2) = Some (row (range_rows 8 5) j)"
    by (simp_all add: map_exact)
  have "map (\<lambda>j. map_option (\<lambda>d. row d (10 + j)) (dataset ?st2)) [0..<8]
        = map (\<lambda>j. Some (row (range_rows 8 10) j)) [0..<8]"
    by (rule map_cong [OF refl]) (use each(1) in simp)
  moreover have "map (\<lambda>j. map_option (\<lambda>l. row l (10 + j)) (labelset ?st2)) [0..<8]
        = map (\<lambda>j. Some (row (range_rows 8 5) j)) [0..<8]"
    by (rule map_cong [OF refl]) (use each(2) in simp)
  ultimately show ?thesis using f r1 rd r2 all by simp
qed

text \<open>
  Claim C4 as stated fails for a batch that h5py broadcasts: the append of one sample of
  per-sample shape \<open>(1,)\<close>, the row \<open>[7]\<close>, to an array of per-sample shape \<open>(2,)\<close>
  succeeds, and the last row of the array is \<open>[7, 7]\<close>.
\<close>

theorem broadcast_tail_counterexample:
  "append_store test_store (arr [1, 2] [5, 6] 9) (arr [1, 2] [1, 2] 9) = Done small_store
   \<and> raised (append_store small_store (arr [1, 1] [7] 9) (arr [1, 2] [3, 4] 9)) = None
   \<and> n_samples (arr [1, 1] [7] 9) = 1
   \<and> row (arr [1, 1] [7] 9) 0 = [7]
   \<and> map_option (\<lambda>d. (shape d, row d 1))
        (dataset (state_of (append_store small_store (arr [1, 1] [7] 9) (arr [1, 2] [3, 4] 9))))
       = Some ([2, 2], [7, 7])"
proof -
  have "raised (append_store small_store (arr [1, 1] [7] 9) (arr [1, 2] [3, 4] 9)) = None"
    "n_samples (arr [1, 1] [7] 9) = 1"
    "row (arr [1, 1] [7] 9) 0 = [7]"
    "map_option (\<lambda>d. (shape d, row d 1))
        (dataset (state_of (append_store small_store (arr [1, 1] [7] 9) (arr [1, 2] [3, 4] 9))))
       = Some ([2, 2], [7, 7])"
    by code_simp+
  then show ?thesis using small_store_reached by simp
qed


section \<open>Failed appends\<close>

text \<open>
  Claim C5 (amended).  When the shape of a data batch with samples cannot be broadcast
  to the selected rows, the append raises \<open>TypeError\<close> at the write, after the resize
  and before the labels are touched: the data array is left with its old rows, followed
  by as many rows of the fill value as the batch has samples.
\<close>

theorem failed_append_extent:
  assumes "ready st" and "dataset st = Some d" and "shape d = n # s"
    and "shape data = c # t" and "0 < c"
    and "0 \<notin> set s" and "expand_shape (c # s) (c # t) = None"
  shows "append_store st data labels =
           Raised TypeError
             (st\<lparr>dataset := Some (d\<lparr>shape := (n + c) # s,
                                      elems := elems d @ replicate (c * prod_list s) 0\<rparr>)\<rparr>)"
proof -
  from assms(1) obtain d0 l where i: "initialized st" and d0: "dataset st = Some d0"
    and l: "labelset st = Some l" and wf: "wf_dataset d0"
    by (rule ready_cases)
  from d0 assms(2) have "d0 = d" by simp
  with wf d0 have wd: "wf_dataset d" and d: "dataset st = Some d" by simp_all
  show ?thesis
    by (simp add: append_initialized [OF i d l] extend_mismatch [OF wd assms(3,4,5,6,7)])
qed

theorem failed_append_extent_witness:
  "ready small_store
   \<and> map_option shape (dataset small_store) = Some [1, 2]
   \<and> shape (arr [2, 3] [7, 8, 9, 10, 11, 12] 9) = [2, 3]
   \<and> expand_shape [2, 2] [2, 3] = None
   \<and> append_store small_store (arr [2, 3] [7, 8, 9, 10, 11, 12] 9) (arr [2, 2] [3, 4, 5, 6] 9) =
        Raised TypeError
          (small_store\<lparr>dataset := Some \<lparr>shape = [3, 2], elems = [5, 6, 0, 0, 0, 0],
             dtype = exact, maxshape = [None, Some 2], attrs = Map.empty\<rparr>\<rparr>)"
proof -
  have r: "ready small_store" by code_simp
  have d: "dataset small_store = Some \<lparr>shape = [1, 2], elems = [5, 6], dtype = exact,
             maxshape = [None, Some 2], attrs = Map.empty\<rparr>"
    by (simp add: small_store_def)
  have e: "expand_shape [2, 2] [2, 3] = None" by code_simp
  have z: "(0::nat) \<notin> set [2]" by simp
  from failed_append_extent [OF r d, of 1 "[2]" "arr [2, 3] [7, 8, 9, 10, 11, 12] 9" 2 "[3]"
      "arr [2, 2] [3, 4, 5, 6] 9"] e z r d
  show ?thesis by (simp add: arr_def numeral_eq_Suc)
qed

text \<open>
  Claim C5 as stated fails: the array is resized before the write, and nothing undoes
  the resize when the write raises.  The sample count is \<open>1\<close> before the failed
  append and \<open>2\<close> after it.
\<close>

theorem failed_append_grown_counterexample:
  "append_store test_store (arr [1, 2] [5, 6] 9) (arr [1, 2] [1, 2] 9) = Done small_store
   \<and> data_count small_store = 1
   \<and> raised (append_store small_store (arr [1, 3] [7, 8, 9] 9) (arr [1, 2] [3, 4] 9))
       = Some TypeError
   \<and> data_count (state_of
        (append_store small_store (arr [1, 3] [7, 8, 9] 9) (arr [1, 2] [3, 4] 9))) = 2"
proof -
  have "data_count small_store = 1"
    "raised (append_store small_store (arr [1, 3] [7, 8, 9] 9) (arr [1, 2] [3, 4] 9))
       = Some TypeError"
    "data_count (state_of
        (append_store small_store (arr [1, 3] [7, 8, 9] 9) (arr [1, 2] [3, 4] 9))) = 2"
    by code_simp+
  then show ?thesis using small_store_reached by simp
qed




end
